theory Spec2Isabelle
  imports Main
begin

section \<open>Data model of the event forwarder\<close>

text \<open>
  The Go package \<open>eventforwarder\<close> keeps a process-wide map of websocket connections
  (\<open>wsClients\<close>, guarded by the mutex \<open>clientMux\<close>) and pushes selected events to all
  of them. A \<open>*websocket.Conn\<close> is a pointer: it may be \<open>nil\<close>, otherwise it is the
  address of a connection object.
\<close>

datatype conn_ptr = NilConn | Conn nat

text \<open>
  \<open>events.Event\<close>, with the fields the package reads or fills in. The device
  information embeds the room information, as the Go struct does.
\<close>

record room_info =
  BuildingID :: string
  RoomID :: string

record device_info = room_info +
  DeviceID :: string

record event =
  GeneratingSystem :: string
  Timestamp :: nat
  EventTags :: "string list"
  TargetDevice :: device_info
  AffectedRoom :: room_info
  Key :: string
  Value :: string

text \<open>
  Errors are values. A read can fail with a close error carrying the peer's close code,
  with the read-limit error, with a timeout, or with any other error.
\<close>

datatype go_error = CloseError nat | ErrReadLimit | ErrTimeout | OtherError string

datatype message_type = TextMessage | CloseMessage | PingMessage | PongMessage

text \<open>What a write call hands to the connection: a JSON-encoded event or a raw message.\<close>

datatype frame = JSONFrame event | MessageFrame message_type string

text \<open>
  The connection object. \<open>write_err\<close> is the environment's answer to a write on this
  connection (\<open>None\<close>: the write succeeds); \<open>written\<close> lists every frame handed to a
  write call, oldest first; \<open>close_calls\<close> counts the calls of \<open>Close\<close>.
\<close>

record conn =
  write_err :: "go_error option"
  written :: "frame list"
  close_calls :: nat
  readLimit :: nat
  writeDeadline :: nat
  readDeadline :: nat

datatype level = ErrorLevel | InfoLevel | DebugLevel

datatype arg = ErrArg go_error | StrArg string | NatArg nat

text \<open>Every access to the mutex and to the map, in program order.\<close>

datatype action =
    MuLock | MuUnlock
  | MapStore conn_ptr | MapDelete conn_ptr | MapRangeNext conn_ptr | MapLen

text \<open>Goroutines started with \<open>go\<close>.\<close>

datatype task = HandleCloseTask conn_ptr | PingWebSocketTask conn_ptr | ReportCountTask

text \<open>
  The state the package acts on: the \<open>Service\<close> (its map; its mutex shows in \<open>trace\<close>),
  the connection objects by address, the log, the goroutines started, the clock in
  nanoseconds, and the events handed to the hub messenger.
\<close>

record world =
  wsClients :: "conn_ptr \<rightharpoonup> bool"
  heap :: "nat \<Rightarrow> conn"
  logs :: "(level \<times> string \<times> arg list) list"
  trace :: "action list"
  spawned :: "task list"
  now :: nat
  outbox :: "event list"

datatype panic = NilPointerDereference

subsection \<open>Constants\<close>

definition second :: nat where
  "second = 1000000000"

definition writeWait :: nat where
  "writeWait = 10 * second"

definition pongWait :: nat where
  "pongWait = 60 * second"

definition maxMessageSize :: nat where
  "maxMessageSize = 512"

definition pingPeriod :: nat where
  "pingPeriod = 30 * second"

subsection \<open>Logging, mutex and map primitives\<close>

definition Errorf :: "string \<Rightarrow> arg list \<Rightarrow> world \<Rightarrow> world" where
  "Errorf fmt args s = s\<lparr>logs := logs s @ [(ErrorLevel, fmt, args)]\<rparr>"

definition Infof :: "string \<Rightarrow> arg list \<Rightarrow> world \<Rightarrow> world" where
  "Infof fmt args s = s\<lparr>logs := logs s @ [(InfoLevel, fmt, args)]\<rparr>"

definition Debugf :: "string \<Rightarrow> arg list \<Rightarrow> world \<Rightarrow> world" where
  "Debugf fmt args s = s\<lparr>logs := logs s @ [(DebugLevel, fmt, args)]\<rparr>"

definition Lock :: "world \<Rightarrow> world" where
  "Lock s = s\<lparr>trace := trace s @ [MuLock]\<rparr>"

definition Unlock :: "world \<Rightarrow> world" where
  "Unlock s = s\<lparr>trace := trace s @ [MuUnlock]\<rparr>"

text \<open>\<open>s.wsClients[c] = true\<close>\<close>

definition map_store :: "conn_ptr \<Rightarrow> world \<Rightarrow> world" where
  "map_store c s = s\<lparr>wsClients := (wsClients s)(c \<mapsto> True), trace := trace s @ [MapStore c]\<rparr>"

text \<open>\<open>delete(s.wsClients, c)\<close>: deleting an absent key does nothing and cannot fail.\<close>

definition map_delete :: "conn_ptr \<Rightarrow> world \<Rightarrow> world" where
  "map_delete c s = s\<lparr>wsClients := (wsClients s)(c := None), trace := trace s @ [MapDelete c]\<rparr>"

definition go :: "task \<Rightarrow> world \<Rightarrow> world" where
  "go t s = s\<lparr>spawned := spawned s @ [t]\<rparr>"

subsection \<open>Methods of a connection\<close>

definition upd_conn :: "nat \<Rightarrow> (conn \<Rightarrow> conn) \<Rightarrow> world \<Rightarrow> world" where
  "upd_conn i f s = s\<lparr>heap := (heap s)(i := f (heap s i))\<rparr>"

definition SetWriteDeadline :: "nat \<Rightarrow> nat \<Rightarrow> world \<Rightarrow> world" where
  "SetWriteDeadline i t s = upd_conn i (\<lambda>c. c\<lparr>writeDeadline := t\<rparr>) s"

definition SetReadDeadline :: "nat \<Rightarrow> nat \<Rightarrow> world \<Rightarrow> world" where
  "SetReadDeadline i t s = upd_conn i (\<lambda>c. c\<lparr>readDeadline := t\<rparr>) s"

definition SetReadLimit :: "nat \<Rightarrow> nat \<Rightarrow> world \<Rightarrow> world" where
  "SetReadLimit i n s = upd_conn i (\<lambda>c. c\<lparr>readLimit := n\<rparr>) s"

definition write_frame :: "nat \<Rightarrow> frame \<Rightarrow> world \<Rightarrow> go_error option \<times> world" where
  "write_frame i fr s =
     (write_err (heap s i), upd_conn i (\<lambda>c. c\<lparr>written := written c @ [fr]\<rparr>) s)"

definition WriteJSON :: "nat \<Rightarrow> event \<Rightarrow> world \<Rightarrow> go_error option \<times> world" where
  "WriteJSON i e s = write_frame i (JSONFrame e) s"

definition WriteMessage :: "nat \<Rightarrow> message_type \<Rightarrow> string \<Rightarrow> world \<Rightarrow> go_error option \<times> world" where
  "WriteMessage i mt payload s = write_frame i (MessageFrame mt payload) s"

definition Close :: "nat \<Rightarrow> world \<Rightarrow> world" where
  "Close i s = upd_conn i (\<lambda>c. c\<lparr>close_calls := Suc (close_calls c)\<rparr>) s"

section \<open>Admission: HandleWebsocket\<close>

text \<open>
  \<open>upgrader.Upgrade\<close> is the environment: its result, a connection pointer and an error,
  is the argument. The function logs a non-nil error and then goes on: it takes the
  lock, stores \<open>c\<close> in the map, starts the two goroutines and releases the lock.
  It returns \<open>nil\<close>.
\<close>

definition HandleWebsocket :: "conn_ptr \<times> go_error option \<Rightarrow> world \<Rightarrow> go_error option \<times> world" where
  "HandleWebsocket up s =
     (let c = fst up; err = snd up;
          s1 = (case err of
                  None \<Rightarrow> s
                | Some e \<Rightarrow>
                    Errorf ''Error while attempting to upgrade connection to websocket: %v''
                      [ErrArg e] s);
          s2 = Lock s1;
          s3 = map_store c s2;
          s4 = go (HandleCloseTask c) s3;
          s5 = go (PingWebSocketTask c) s4;
          s6 = Unlock s5
      in (None, s6))"

section \<open>Broadcast: ForwardEvent\<close>

text \<open>
  The body of the \<open>range\<close> loop for the key \<open>c\<close>. Every method called on the connection
  reads a field of it, so a nil pointer panics at the first call.
\<close>

definition forward_body :: "event \<Rightarrow> conn_ptr \<Rightarrow> world \<Rightarrow> panic + world" where
  "forward_body e c s =
     (case c of
        NilConn \<Rightarrow> Inl NilPointerDereference
      | Conn i \<Rightarrow>
          (let s1 = SetWriteDeadline i (now s + writeWait) s;
               (err, s2) = WriteJSON i e s1
           in case err of
                None \<Rightarrow> Inr s2
              | Some x \<Rightarrow>
                  (let s3 = Errorf ''Error while forwarding event to ws client: %s'' [ErrArg x] s2;
                       s4 = map_delete c s3;
                       (_, s5) = WriteMessage i CloseMessage [] s4;
                       s6 = Close i s5
                   in Inr s6)))"

text \<open>
  \<open>for c := range s.wsClients\<close>. Go leaves the order of a map iteration open, so the
  order is an argument: the keys as the runtime produces them. An entry deleted before
  it is reached is not produced.
\<close>

fun forward_range :: "event \<Rightarrow> conn_ptr list \<Rightarrow> world \<Rightarrow> panic + world" where
  "forward_range e [] s = Inr s"
| "forward_range e (c # cs) s =
     (if wsClients s c = None then forward_range e cs s
      else (case forward_body e c (s\<lparr>trace := trace s @ [MapRangeNext c]\<rparr>) of
              Inl p \<Rightarrow> Inl p
            | Inr s' \<Rightarrow> forward_range e cs s'))"

definition ForwardEvent :: "event \<Rightarrow> conn_ptr list \<Rightarrow> world \<Rightarrow> panic + world" where
  "ForwardEvent e ord s =
     (if Key e = ''login'' \<or> Key e = ''card-read-error'' then
        (case forward_range e ord (Lock s) of
           Inl p \<Rightarrow> Inl p
         | Inr s' \<Rightarrow> Inr (Unlock s'))
      else Inr s)"

section \<open>Heartbeat: pingWebSocket\<close>

text \<open>
  A statement either completes or executes \<open>break\<close>. In Go a \<open>break\<close> ends the
  innermost enclosing \<open>for\<close>, \<open>switch\<close> or \<open>select\<close> statement.
\<close>

datatype ctl = Completes | Break

text \<open>
  A function that loops for ever is run for a given number of rounds of its loop. The
  result says whether the function has returned or is still inside its loop.
\<close>

datatype 'a outcome = StillLooping 'a | Returned 'a

text \<open>The statements of \<open>case <-ping.C:\<close>.\<close>

definition ping_case :: "nat \<Rightarrow> world \<Rightarrow> ctl \<times> world" where
  "ping_case i s =
     (let s1 = SetWriteDeadline i (now s + writeWait) s;
          (err, s2) = WriteMessage i PingMessage [] s1
      in if err \<noteq> None then (Break, s2) else (Completes, s2))"

text \<open>
  The \<open>select\<close> statement, entered when the ticker fires. The \<open>break\<close> of its case is
  inside the \<open>select\<close>, so it ends the \<open>select\<close>: the statement completes either way.
\<close>

definition ping_select :: "conn_ptr \<Rightarrow> world \<Rightarrow> panic + ctl \<times> world" where
  "ping_select c s =
     (case c of
        NilConn \<Rightarrow> Inl NilPointerDereference
      | Conn i \<Rightarrow>
          (case ping_case i s of
             (Break, s') \<Rightarrow> Inr (Completes, s')
           | (Completes, s') \<Rightarrow> Inr (Completes, s')))"

text \<open>
  \<open>for { select { ... } }\<close>, run for \<open>n\<close> firings of the ticker, one every
  \<open>pingPeriod\<close>. The loop ends only if its body, the \<open>select\<close>, executes \<open>break\<close>.
  The ticker is local to the goroutine and is not part of the state.
\<close>

fun pingWebSocket :: "nat \<Rightarrow> conn_ptr \<Rightarrow> world \<Rightarrow> panic + world outcome" where
  "pingWebSocket 0 c s = Inr (StillLooping s)"
| "pingWebSocket (Suc n) c s =
     (case ping_select c (s\<lparr>now := now s + pingPeriod\<rparr>) of
        Inl p \<Rightarrow> Inl p
      | Inr (Break, s') \<Rightarrow> Inr (Returned s')
      | Inr (Completes, s') \<Rightarrow> pingWebSocket n c s')"

section \<open>Liveness reader: handleClose\<close>

text \<open>
  What arrives from the peer, in order: a data message, a pong, or a failure of the
  connection. When nothing arrives any more the read deadline expires.
\<close>

datatype inbound = Data string | Pong string | Fail go_error

definition CloseGoingAway :: nat where
  "CloseGoingAway = 1001"

definition IsCloseError :: "go_error \<Rightarrow> nat list \<Rightarrow> bool" where
  "IsCloseError err codes = (case err of CloseError code \<Rightarrow> code \<in> set codes | _ \<Rightarrow> False)"

text \<open>
  The connection library's rule for a data message: with a positive read limit, a
  message longer than the limit is not delivered and the read fails with the
  read-limit error.
\<close>

definition read_data :: "nat \<Rightarrow> string \<Rightarrow> world \<Rightarrow> string \<times> go_error option" where
  "read_data i p s =
     (if 0 < readLimit (heap s i) \<and> readLimit (heap s i) < length p
      then ([], Some ErrReadLimit) else (p, None))"

text \<open>The branch \<open>if err != nil\<close> of the read loop, up to its \<open>break\<close>.\<close>

definition read_failed :: "go_error \<Rightarrow> world \<Rightarrow> world" where
  "read_failed err s =
     (if IsCloseError err [CloseGoingAway] then Infof ''error: %v'' [ErrArg err] s else s)"

text \<open>
  The \<open>for\<close> loop around \<open>c.ReadMessage()\<close>. A pong is consumed inside \<open>ReadMessage\<close>
  by the pong handler, which moves the read deadline; a data message is logged and the
  loop goes on; an error ends the loop.
\<close>

fun handleClose_loop :: "nat \<Rightarrow> inbound list \<Rightarrow> world \<Rightarrow> world" where
  "handleClose_loop i [] s = read_failed ErrTimeout s"
| "handleClose_loop i (Pong d # rest) s =
     handleClose_loop i rest (SetReadDeadline i (now s + pongWait) s)"
| "handleClose_loop i (Fail err # rest) s = read_failed err s"
| "handleClose_loop i (Data p # rest) s =
     (case read_data i p s of
        (msg, Some err) \<Rightarrow> read_failed err s
      | (msg, None) \<Rightarrow>
          handleClose_loop i rest (Infof ''Received message from socket: %s'' [StrArg msg] s))"

text \<open>The deferred function: it takes no lock.\<close>

definition handleClose_deferred :: "nat \<Rightarrow> world \<Rightarrow> world" where
  "handleClose_deferred i s =
     (let s1 = map_delete (Conn i) s;
          (_, s2) = WriteMessage i CloseMessage [] s1
      in Close i s2)"

definition handleClose :: "conn_ptr \<Rightarrow> inbound list \<Rightarrow> world \<Rightarrow> panic + world" where
  "handleClose c inb s =
     (case c of
        NilConn \<Rightarrow> Inl NilPointerDereference
      | Conn i \<Rightarrow>
          (let s1 = SetReadLimit i maxMessageSize s;
               s2 = SetReadDeadline i (now s + pongWait) s1;
               s3 = handleClose_loop i inb s2
           in Inr (handleClose_deferred i s3)))"

section \<open>Telemetry: reportWebSocketCount\<close>

text \<open>
  What the reporter takes from other packages: the system id, the two functions that
  derive device and room information from it, the tag \<open>events.DetailState\<close>, and the
  result of \<open>messenger.BuildMessenger\<close> (a messenger pointer and an error).
\<close>

datatype messenger_ptr = NilMessenger | Messenger

record deps =
  MustSystemID :: string
  GenerateBasicDeviceInfo :: "string \<Rightarrow> device_info"
  GenerateBasicRoomInfo :: "string \<Rightarrow> room_info"
  DetailState :: string
  BuildMessenger :: "messenger_ptr \<times> go_error option"

text \<open>
  \<open>fmt.Sprintf("%v", n)\<close> for a length: its decimal digits, each below ten.
\<close>

definition digit :: "nat \<Rightarrow> char" where
  "digit d = ''0123456789'' ! d"

fun itoa :: "nat \<Rightarrow> string" where
  "itoa n = (if n < 10 then [digit n] else itoa (n div 10) @ [digit (n mod 10)])"

declare itoa.simps [simp del]

text \<open>\<open>len(s.wsClients)\<close>, read without the lock.\<close>

definition map_len :: "world \<Rightarrow> nat \<times> world" where
  "map_len s = (card (dom (wsClients s)), s\<lparr>trace := trace s @ [MapLen]\<rparr>)"

definition SendEvent :: "event \<Rightarrow> world \<Rightarrow> world" where
  "SendEvent e s = s\<lparr>outbox := outbox s @ [e]\<rparr>"

definition minute :: nat where
  "minute = 60 * second"

definition Sleep :: "nat \<Rightarrow> world \<Rightarrow> world" where
  "Sleep d s = s\<lparr>now := now s + d\<rparr>"

text \<open>
  One round of the reporter's loop, with the locals set before the loop as arguments
  (\<open>sysID\<close> is the source's \<open>id\<close>).
\<close>

definition report_round ::
  "deps \<Rightarrow> string \<Rightarrow> device_info \<Rightarrow> room_info \<Rightarrow> messenger_ptr \<Rightarrow> world \<Rightarrow> world" where
  "report_round d sysID deviceInfo roomInfo messenger s =
     (let (n1, s1) = map_len s;
          s2 = Debugf ''sending websocket count of : %d'' [NatArg n1] s1;
          (n2, s3) = map_len s2;
          countEvent = \<lparr>GeneratingSystem = sysID, Timestamp = now s3,
                        EventTags = [DetailState d], TargetDevice = deviceInfo,
                        AffectedRoom = roomInfo, Key = ''websocket-count'',
                        Value = itoa n2\<rparr>;
          s4 = (if messenger \<noteq> NilMessenger then SendEvent countEvent s3 else s3)
      in Sleep (1 * minute) s4)"

text \<open>The \<open>for\<close> loop, run for \<open>n\<close> rounds. It has no \<open>break\<close> and no \<open>return\<close>.\<close>

fun report_loop ::
  "nat \<Rightarrow> deps \<Rightarrow> string \<Rightarrow> device_info \<Rightarrow> room_info \<Rightarrow> messenger_ptr \<Rightarrow> world
     \<Rightarrow> world outcome" where
  "report_loop 0 d sysID deviceInfo roomInfo messenger s = StillLooping s"
| "report_loop (Suc n) d sysID deviceInfo roomInfo messenger s =
     report_loop n d sysID deviceInfo roomInfo messenger
       (report_round d sysID deviceInfo roomInfo messenger s)"

definition reportWebSocketCount :: "nat \<Rightarrow> deps \<Rightarrow> world \<Rightarrow> world outcome" where
  "reportWebSocketCount n d s =
     (let sysID = MustSystemID d;
          deviceInfo = GenerateBasicDeviceInfo d sysID;
          roomInfo = GenerateBasicRoomInfo d (RoomID deviceInfo);
          (messenger, err) = BuildMessenger d;
          s1 = (case err of
                  None \<Rightarrow> s
                | Some x \<Rightarrow>
                    Errorf ''unable to build websocket count messenger: %s'' [ErrArg x] s)
      in report_loop n d sysID deviceInfo roomInfo messenger s1)"

section \<open>Construction: New\<close>

definition New :: "world \<Rightarrow> world" where
  "New s = go ReportCountTask (s\<lparr>wsClients := Map.empty\<rparr>)"

section \<open>Observations and example states\<close>

text \<open>Whether a write on the connection behind \<open>c\<close> fails in state \<open>s\<close>.\<close>

definition write_fails :: "world \<Rightarrow> conn_ptr \<Rightarrow> bool" where
  "write_fails s c = (case c of NilConn \<Rightarrow> False | Conn i \<Rightarrow> write_err (heap s i) \<noteq> None)"

text \<open>
  What can be seen of a run that may have panicked: the frames handed to a connection,
  the number of \<open>Close\<close> calls on it, the keys of the map, all connection objects,
  the accesses made.
\<close>

definition sent_to :: "nat \<Rightarrow> panic + world \<Rightarrow> frame list option" where
  "sent_to i r = (case r of Inl p \<Rightarrow> None | Inr s \<Rightarrow> Some (written (heap s i)))"

definition closes_of :: "nat \<Rightarrow> panic + world \<Rightarrow> nat option" where
  "closes_of i r = (case r of Inl p \<Rightarrow> None | Inr s \<Rightarrow> Some (close_calls (heap s i)))"

definition registered_after :: "panic + world \<Rightarrow> conn_ptr set option" where
  "registered_after r = (case r of Inl p \<Rightarrow> None | Inr s \<Rightarrow> Some (dom (wsClients s)))"

definition heap_after :: "panic + world \<Rightarrow> (nat \<Rightarrow> conn) option" where
  "heap_after r = (case r of Inl p \<Rightarrow> None | Inr s \<Rightarrow> Some (heap s))"

definition trace_of :: "panic + world \<Rightarrow> action list option" where
  "trace_of r = (case r of Inl p \<Rightarrow> None | Inr s \<Rightarrow> Some (trace s))"

definition and_then :: "panic + world \<Rightarrow> (world \<Rightarrow> panic + world) \<Rightarrow> panic + world" where
  "and_then r f = (case r of Inl p \<Rightarrow> Inl p | Inr s \<Rightarrow> f s)"

definition idle_conn :: conn where
  "idle_conn = \<lparr>write_err = None, written = [], close_calls = 0, readLimit = 0,
                writeDeadline = 0, readDeadline = 0\<rparr>"

definition dead_conn :: conn where
  "dead_conn = idle_conn\<lparr>write_err := Some (OtherError ''broken pipe'')\<rparr>"

definition empty_world :: world where
  "empty_world = \<lparr>wsClients = Map.empty, heap = (\<lambda>i. idle_conn), logs = [], trace = [],
                  spawned = [], now = 0, outbox = []\<rparr>"

definition world_ABC :: world where
  "world_ABC = empty_world\<lparr>wsClients := [Conn 0 \<mapsto> True, Conn 1 \<mapsto> True, Conn 2 \<mapsto> True],
                          heap := (\<lambda>i. idle_conn)(0 := dead_conn)\<rparr>"

definition no_room :: room_info where
  "no_room = \<lparr>BuildingID = '''', RoomID = ''''\<rparr>"

definition no_device :: device_info where
  "no_device = \<lparr>BuildingID = '''', RoomID = '''', DeviceID = ''''\<rparr>"

definition login_event :: event where
  "login_event = \<lparr>GeneratingSystem = ''ITB-1101-CP1'', Timestamp = 0, EventTags = [],
                  TargetDevice = no_device, AffectedRoom = no_room,
                  Key = ''login'', Value = ''userX''\<rparr>"

definition other_event :: event where
  "other_event = login_event\<lparr>Key := ''heartbeat-data'', Value := ''ignored''\<rparr>"

text \<open>
  A run of a looping function: its state, and whether it has returned.
\<close>

definition outcome_state :: "'a outcome \<Rightarrow> 'a" where
  "outcome_state r = (case r of StillLooping s \<Rightarrow> s | Returned s \<Rightarrow> s)"

definition returned :: "'a outcome \<Rightarrow> bool" where
  "returned r = (case r of StillLooping s \<Rightarrow> False | Returned s \<Rightarrow> True)"

definition loop_state :: "panic + world outcome \<Rightarrow> panic + world" where
  "loop_state r = (case r of Inl p \<Rightarrow> Inl p | Inr x \<Rightarrow> Inr (outcome_state x))"

definition has_returned :: "panic + world outcome \<Rightarrow> bool" where
  "has_returned r = (case r of Inl p \<Rightarrow> False | Inr x \<Rightarrow> returned x)"

text \<open>
  Lock discipline of a sequence of accesses: every access to the map happens between a
  \<open>Lock\<close> and the next \<open>Unlock\<close> of the same sequence.
\<close>

fun guarded :: "bool \<Rightarrow> action list \<Rightarrow> bool" where
  "guarded held [] = True"
| "guarded held (MuLock # tr) = guarded True tr"
| "guarded held (MuUnlock # tr) = guarded False tr"
| "guarded held (a # tr) = (held \<and> guarded held tr)"

definition accesses_guarded :: "panic + world \<Rightarrow> bool" where
  "accesses_guarded r = (case r of Inl p \<Rightarrow> False | Inr s \<Rightarrow> guarded False (trace s))"

text \<open>
  An inbound item that does not end the read loop: a pong, or a data message within the
  read limit. \<open>received\<close> lists the log lines of the data messages read.
\<close>

fun fits :: "inbound \<Rightarrow> bool" where
  "fits (Data q) = (length q \<le> maxMessageSize)"
| "fits (Pong d) = True"
| "fits (Fail err) = False"

fun received :: "inbound list \<Rightarrow> (level \<times> string \<times> arg list) list" where
  "received [] = []"
| "received (Data q # r) = (InfoLevel, ''Received message from socket: %s'', [StrArg q]) # received r"
| "received (x # r) = received r"

text \<open>Two environments of the reporter: the hub reachable, and not.\<close>

definition ok_deps :: deps where
  "ok_deps = \<lparr>MustSystemID = ''ITB-1101-CP1'',
              GenerateBasicDeviceInfo = (\<lambda>id. no_device),
              GenerateBasicRoomInfo = (\<lambda>id. no_room),
              DetailState = ''detail-state'',
              BuildMessenger = (Messenger, None)\<rparr>"

definition no_hub_deps :: deps where
  "no_hub_deps = ok_deps\<lparr>BuildMessenger := (NilMessenger, Some (OtherError ''dial failed''))\<rparr>"

definition is_error_entry :: "level \<times> string \<times> arg list \<Rightarrow> bool" where
  "is_error_entry x = (fst x = ErrorLevel)"

section \<open>Effect of a broadcast pass\<close>

lemmas prims = Errorf_def Lock_def Unlock_def map_delete_def upd_conn_def SetWriteDeadline_def
  write_frame_def WriteJSON_def WriteMessage_def Close_def

lemma forward_body_effect:
  "\<exists>s'. forward_body e (Conn i) s = Inr s' \<and>
        wsClients s' = (if write_err (heap s i) = None then wsClients s
                        else (wsClients s)(Conn i := None)) \<and>
        (\<forall>j. j \<noteq> i \<longrightarrow> heap s' j = heap s j) \<and>
        written (heap s' i) =
          written (heap s i) @ JSONFrame e #
            (if write_err (heap s i) = None then [] else [MessageFrame CloseMessage []]) \<and>
        close_calls (heap s' i) =
          close_calls (heap s i) + (if write_err (heap s i) = None then 0 else 1) \<and>
        write_err (heap s' i) = write_err (heap s i) \<and>
        now s' = now s \<and> spawned s' = spawned s \<and> outbox s' = outbox s"
  by (cases "write_err (heap s i)") (simp_all add: forward_body_def prims)

lemma forward_range_effect:
  assumes "NilConn \<notin> set cs" "distinct cs" "set cs \<subseteq> dom (wsClients s)"
  shows "\<exists>s'. forward_range e cs s = Inr s' \<and>
        wsClients s' = (\<lambda>c. if c \<in> set cs \<and> write_fails s c then None else wsClients s c) \<and>
        (\<forall>j. Conn j \<notin> set cs \<longrightarrow> heap s' j = heap s j) \<and>
        (\<forall>j. Conn j \<in> set cs \<longrightarrow>
           written (heap s' j) =
             written (heap s j) @ JSONFrame e #
               (if write_fails s (Conn j) then [MessageFrame CloseMessage []] else []) \<and>
           close_calls (heap s' j) =
             close_calls (heap s j) + (if write_fails s (Conn j) then 1 else 0)) \<and>
        (\<forall>j. write_err (heap s' j) = write_err (heap s j)) \<and>
        now s' = now s \<and> spawned s' = spawned s \<and> outbox s' = outbox s"
  using assms
proof (induction cs arbitrary: s)
  case Nil
  then show ?case by simp
next
  case (Cons c cs)
  from Cons.prems obtain i where c: "c = Conn i" by (cases c) auto
  let ?s0 = "s\<lparr>trace := trace s @ [MapRangeNext c]\<rparr>"
  from forward_body_effect [of e i ?s0] obtain s1 where
    b: "forward_body e (Conn i) ?s0 = Inr s1"
    and w: "wsClients s1 = (if write_err (heap s i) = None then wsClients s
                        else (wsClients s)(Conn i := None))"
    and h: "\<forall>j. j \<noteq> i \<longrightarrow> heap s1 j = heap s j"
    and wr: "written (heap s1 i) =
          written (heap s i) @ JSONFrame e #
            (if write_err (heap s i) = None then [] else [MessageFrame CloseMessage []])"
    and cl: "close_calls (heap s1 i) =
          close_calls (heap s i) + (if write_err (heap s i) = None then 0 else 1)"
    and we: "write_err (heap s1 i) = write_err (heap s i)"
    and rest: "now s1 = now s" "spawned s1 = spawned s" "outbox s1 = outbox s"
    by auto
  have wf: "\<And>c. write_fails s1 c = write_fails s c"
    using h we by (auto simp: write_fails_def split: conn_ptr.splits) metis+
  have notin: "Conn i \<notin> set cs" using Cons.prems c by simp
  have sub: "set cs \<subseteq> dom (wsClients s1)"
    using Cons.prems notin w c by (auto split: if_splits)
  from Cons.IH [of s1] Cons.prems sub obtain s' where
    r: "forward_range e cs s1 = Inr s'"
    and w': "wsClients s' = (\<lambda>c. if c \<in> set cs \<and> write_fails s1 c then None else wsClients s1 c)"
    and h': "\<forall>j. Conn j \<notin> set cs \<longrightarrow> heap s' j = heap s1 j"
    and v': "\<forall>j. Conn j \<in> set cs \<longrightarrow>
           written (heap s' j) =
             written (heap s1 j) @ JSONFrame e #
               (if write_fails s1 (Conn j) then [MessageFrame CloseMessage []] else []) \<and>
           close_calls (heap s' j) =
             close_calls (heap s1 j) + (if write_fails s1 (Conn j) then 1 else 0)"
    and we': "\<forall>j. write_err (heap s' j) = write_err (heap s1 j)"
    and rest': "now s' = now s1" "spawned s' = spawned s1" "outbox s' = outbox s1"
    by auto
  have present: "wsClients s c \<noteq> None" using Cons.prems by auto
  have run: "forward_range e (c # cs) s = Inr s'"
    using present b r c by auto
  have g1: "wsClients s' = (\<lambda>d. if d \<in> set (c # cs) \<and> write_fails s d then None else wsClients s d)"
    unfolding w' wf w using c by (auto simp: write_fails_def fun_eq_iff)
  have g2: "\<forall>j. Conn j \<notin> set (c # cs) \<longrightarrow> heap s' j = heap s j"
    using h' h c by auto
  have g3: "\<forall>j. Conn j \<in> set (c # cs) \<longrightarrow>
           written (heap s' j) =
             written (heap s j) @ JSONFrame e #
               (if write_fails s (Conn j) then [MessageFrame CloseMessage []] else []) \<and>
           close_calls (heap s' j) =
             close_calls (heap s j) + (if write_fails s (Conn j) then 1 else 0)"
  proof (intro allI impI)
    fix j assume "Conn j \<in> set (c # cs)"
    then consider "j = i" | "j \<noteq> i" "Conn j \<in> set cs" using c by auto
    then show "written (heap s' j) =
             written (heap s j) @ JSONFrame e #
               (if write_fails s (Conn j) then [MessageFrame CloseMessage []] else []) \<and>
           close_calls (heap s' j) =
             close_calls (heap s j) + (if write_fails s (Conn j) then 1 else 0)"
    proof cases
      case 1
      then show ?thesis using h' notin wr cl by (simp add: write_fails_def)
    next
      case 2
      then show ?thesis using v' h wf by simp
    qed
  qed
  have g4: "\<forall>j. write_err (heap s' j) = write_err (heap s j)"
    using we' we h by metis
  show ?case using run g1 g2 g3 g4 rest rest' by simp
qed

lemma ForwardEvent_dropped:
  "Key e \<noteq> ''login'' \<Longrightarrow> Key e \<noteq> ''card-read-error'' \<Longrightarrow> ForwardEvent e ord s = Inr s"
  by (simp add: ForwardEvent_def)

lemma Lock_fields [simp]:
  "wsClients (Lock s) = wsClients s" "heap (Lock s) = heap s" "now (Lock s) = now s"
  "spawned (Lock s) = spawned s" "outbox (Lock s) = outbox s" "logs (Lock s) = logs s"
  by (simp_all add: Lock_def)

lemma Unlock_fields [simp]:
  "wsClients (Unlock s) = wsClients s" "heap (Unlock s) = heap s" "now (Unlock s) = now s"
  "spawned (Unlock s) = spawned s" "outbox (Unlock s) = outbox s" "logs (Unlock s) = logs s"
  by (simp_all add: Unlock_def)

lemma write_fails_Lock [simp]: "write_fails (Lock s) c = write_fails s c"
  by (simp add: write_fails_def split: conn_ptr.splits)

lemma ForwardEvent_effect:
  assumes "Key e = ''login'' \<or> Key e = ''card-read-error''"
    and "NilConn \<notin> dom (wsClients s)" "distinct ord" "set ord = dom (wsClients s)"
  shows "\<exists>s'. ForwardEvent e ord s = Inr s' \<and>
        wsClients s' = (\<lambda>c. if write_fails s c then None else wsClients s c) \<and>
        (\<forall>j. Conn j \<notin> dom (wsClients s) \<longrightarrow> heap s' j = heap s j) \<and>
        (\<forall>j. Conn j \<in> dom (wsClients s) \<longrightarrow>
           written (heap s' j) =
             written (heap s j) @ JSONFrame e #
               (if write_fails s (Conn j) then [MessageFrame CloseMessage []] else []) \<and>
           close_calls (heap s' j) =
             close_calls (heap s j) + (if write_fails s (Conn j) then 1 else 0)) \<and>
        (\<forall>j. write_err (heap s' j) = write_err (heap s j)) \<and>
        now s' = now s \<and> spawned s' = spawned s \<and> outbox s' = outbox s"
proof -
  have a: "NilConn \<notin> set ord" "set ord \<subseteq> dom (wsClients (Lock s))"
    using assms by simp_all
  from forward_range_effect [OF a(1) assms(3) a(2), of e] obtain s1 where
    r: "forward_range e ord (Lock s) = Inr s1"
    and w: "wsClients s1 = (\<lambda>c. if c \<in> set ord \<and> write_fails (Lock s) c then None else wsClients (Lock s) c)"
    and h: "\<forall>j. Conn j \<notin> set ord \<longrightarrow> heap s1 j = heap (Lock s) j"
    and v: "\<forall>j. Conn j \<in> set ord \<longrightarrow>
           written (heap s1 j) =
             written (heap (Lock s) j) @ JSONFrame e #
               (if write_fails (Lock s) (Conn j) then [MessageFrame CloseMessage []] else []) \<and>
           close_calls (heap s1 j) =
             close_calls (heap (Lock s) j) + (if write_fails (Lock s) (Conn j) then 1 else 0)"
    and we: "\<forall>j. write_err (heap s1 j) = write_err (heap (Lock s) j)"
    and rest: "now s1 = now (Lock s)" "spawned s1 = spawned (Lock s)" "outbox s1 = outbox (Lock s)"
    by blast
  have run: "ForwardEvent e ord s = Inr (Unlock s1)"
    using assms(1) r by (simp add: ForwardEvent_def)
  have g1: "wsClients (Unlock s1) = (\<lambda>c. if write_fails s c then None else wsClients s c)"
    using w assms(4) by (auto simp: fun_eq_iff)
  show ?thesis
    using run g1 h v we rest assms(4) by simp
qed

lemmas example_defs = world_ABC_def empty_world_def idle_conn_def dead_conn_def
  login_event_def other_event_def no_room_def no_device_def

lemmas observer_defs = sent_to_def closes_of_def registered_after_def trace_of_def and_then_def

section \<open>Effect of admission\<close>

lemma HandleWebsocket_effect:
  "fst (HandleWebsocket (c, err) s) = None \<and>
   wsClients (snd (HandleWebsocket (c, err) s)) = (wsClients s)(c \<mapsto> True) \<and>
   spawned (snd (HandleWebsocket (c, err) s)) = spawned s @ [HandleCloseTask c, PingWebSocketTask c] \<and>
   logs (snd (HandleWebsocket (c, err) s)) =
     logs s @ (case err of None \<Rightarrow> []
               | Some x \<Rightarrow> [(ErrorLevel, ''Error while attempting to upgrade connection to websocket: %v'', [ErrArg x])]) \<and>
   trace (snd (HandleWebsocket (c, err) s)) = trace s @ [MuLock, MapStore c, MuUnlock]"
  by (cases err) (simp_all add: HandleWebsocket_def Let_def Errorf_def Lock_def Unlock_def map_store_def go_def)

section \<open>Effect of the liveness reader\<close>

lemmas read_prims = Infof_def SetReadDeadline_def SetReadLimit_def upd_conn_def read_failed_def
  read_data_def

lemma read_failed_keeps:
  "wsClients (read_failed err s) = wsClients s \<and> trace (read_failed err s) = trace s \<and>
   heap (read_failed err s) = heap s \<and> now (read_failed err s) = now s"
  by (simp add: read_failed_def Infof_def)

lemma handleClose_loop_keeps:
  "wsClients (handleClose_loop i inb s) = wsClients s \<and>
   trace (handleClose_loop i inb s) = trace s \<and>
   now (handleClose_loop i inb s) = now s \<and>
   (\<forall>j. written (heap (handleClose_loop i inb s) j) = written (heap s j) \<and>
        close_calls (heap (handleClose_loop i inb s) j) = close_calls (heap s j) \<and>
        readLimit (heap (handleClose_loop i inb s) j) = readLimit (heap s j) \<and>
        write_err (heap (handleClose_loop i inb s) j) = write_err (heap s j))"
proof (induction i inb s rule: handleClose_loop.induct)
  case (1 i s)
  then show ?case by (simp add: read_failed_keeps)
next
  case (2 i d rest s)
  then show ?case by (simp add: SetReadDeadline_def upd_conn_def)
next
  case (3 i err rest s)
  then show ?case by (simp add: read_failed_keeps)
next
  case (4 i p rest s)
  show ?case
  proof (cases "0 < readLimit (heap s i) \<and> readLimit (heap s i) < length p")
    case True
    then show ?thesis by (simp add: read_data_def read_failed_keeps)
  next
    case False
    then have rd: "read_data i p s = (p, None)" by (auto simp: read_data_def)
    from "4.IH" [OF rd [symmetric] refl] rd show ?thesis
      by (simp add: Infof_def)
  qed
qed

lemma handleClose_effect:
  "\<exists>s'. handleClose (Conn i) inb s = Inr s' \<and>
        wsClients s' = (wsClients s)(Conn i := None) \<and>
        trace s' = trace s @ [MapDelete (Conn i)] \<and>
        written (heap s' i) = written (heap s i) @ [MessageFrame CloseMessage []] \<and>
        close_calls (heap s' i) = Suc (close_calls (heap s i)) \<and>
        readLimit (heap s' i) = maxMessageSize \<and>
        (\<forall>j. j \<noteq> i \<longrightarrow> written (heap s' j) = written (heap s j) \<and>
                       close_calls (heap s' j) = close_calls (heap s j))"
proof -
  let ?s2 = "SetReadDeadline i (now s + pongWait) (SetReadLimit i maxMessageSize s)"
  let ?s3 = "handleClose_loop i inb ?s2"
  have r: "handleClose (Conn i) inb s = Inr (handleClose_deferred i ?s3)"
    by (simp add: handleClose_def Let_def)
  have k: "wsClients ?s3 = wsClients s" "trace ?s3 = trace s"
    "written (heap ?s3 i) = written (heap s i)"
    "close_calls (heap ?s3 i) = close_calls (heap s i)"
    "readLimit (heap ?s3 i) = maxMessageSize"
    "\<And>j. j \<noteq> i \<Longrightarrow> written (heap ?s3 j) = written (heap s j) \<and>
                       close_calls (heap ?s3 j) = close_calls (heap s j)"
    using handleClose_loop_keeps [of i inb ?s2]
    by (simp_all add: SetReadDeadline_def SetReadLimit_def upd_conn_def)
  show ?thesis
    unfolding r using k
    by (simp add: handleClose_deferred_def map_delete_def WriteMessage_def write_frame_def
        Close_def upd_conn_def)
qed

lemma handleClose_loop_oversized:
  assumes "\<forall>x \<in> set pre. fits x" "readLimit (heap s i) = maxMessageSize"
    "maxMessageSize < length p"
  shows "handleClose_loop i (pre @ Data p # rest) s = handleClose_loop i (pre @ [Fail ErrReadLimit]) s"
  using assms
proof (induction pre arbitrary: s)
  case Nil
  then show ?case
    by (simp add: read_data_def maxMessageSize_def)
next
  case (Cons x pre)
  show ?case
  proof (cases x)
    case (Data q)
    with Cons.prems have q: "read_data i q s = (q, None)"
      by (auto simp: read_data_def)
    let ?s1 = "Infof ''Received message from socket: %s'' [StrArg q] s"
    have "readLimit (heap ?s1 i) = maxMessageSize" using Cons.prems by (simp add: Infof_def)
    from Cons.IH [OF _ this Cons.prems(3)] Cons.prems(1) q Data
    show ?thesis by simp
  next
    case (Pong d)
    let ?s1 = "SetReadDeadline i (now s + pongWait) s"
    have "readLimit (heap ?s1 i) = maxMessageSize"
      using Cons.prems by (simp add: SetReadDeadline_def upd_conn_def)
    from Cons.IH [OF _ this Cons.prems(3)] Cons.prems(1) Pong
    show ?thesis by simp
  next
    case (Fail err)
    with Cons.prems show ?thesis by simp
  qed
qed

lemma handleClose_loop_logs:
  assumes "\<forall>x \<in> set pre. fits x" "readLimit (heap s i) = maxMessageSize"
  shows "logs (handleClose_loop i (pre @ [Fail ErrReadLimit]) s) = logs s @ received pre"
  using assms
proof (induction pre arbitrary: s)
  case Nil
  then show ?case
    by (simp add: read_failed_def IsCloseError_def)
next
  case (Cons x pre)
  show ?case
  proof (cases x)
    case (Data q)
    with Cons.prems have q: "read_data i q s = (q, None)"
      by (auto simp: read_data_def)
    let ?s1 = "Infof ''Received message from socket: %s'' [StrArg q] s"
    have "readLimit (heap ?s1 i) = maxMessageSize" using Cons.prems by (simp add: Infof_def)
    from Cons.IH [OF _ this] Cons.prems(1)
    have "logs (handleClose_loop i (pre @ [Fail ErrReadLimit]) ?s1) = logs ?s1 @ received pre"
      by simp
    then show ?thesis using q Data by (simp add: Infof_def)
  next
    case (Pong d)
    let ?s1 = "SetReadDeadline i (now s + pongWait) s"
    have "readLimit (heap ?s1 i) = maxMessageSize"
      using Cons.prems by (simp add: SetReadDeadline_def upd_conn_def)
    from Cons.IH [OF _ this] Cons.prems(1)
    have "logs (handleClose_loop i (pre @ [Fail ErrReadLimit]) ?s1) = logs ?s1 @ received pre"
      by simp
    then show ?thesis using Pong by (simp add: SetReadDeadline_def upd_conn_def)
  next
    case (Fail err)
    with Cons.prems show ?thesis by simp
  qed
qed

section \<open>Effect of the heartbeat sender\<close>

lemma ping_select_effect:
  "\<exists>s'. ping_select (Conn i) s = Inr (Completes, s') \<and>
        written (heap s' i) = written (heap s i) @ [MessageFrame PingMessage []] \<and>
        write_err (heap s' i) = write_err (heap s i) \<and>
        wsClients s' = wsClients s \<and> now s' = now s"
  by (cases "write_err (heap s i)")
    (simp_all add: ping_select_def ping_case_def WriteMessage_def write_frame_def
      SetWriteDeadline_def upd_conn_def)

lemma pingWebSocket_effect:
  "\<exists>s'. pingWebSocket n (Conn i) s = Inr (StillLooping s') \<and>
        written (heap s' i) = written (heap s i) @ replicate n (MessageFrame PingMessage []) \<and>
        write_err (heap s' i) = write_err (heap s i) \<and>
        wsClients s' = wsClients s \<and> now s' = now s + n * pingPeriod"
proof (induction n arbitrary: s)
  case 0
  then show ?case by simp
next
  case (Suc n)
  let ?s0 = "s\<lparr>now := now s + pingPeriod\<rparr>"
  from ping_select_effect [of i ?s0] obtain s1 where
    a: "ping_select (Conn i) ?s0 = Inr (Completes, s1)"
    and b: "written (heap s1 i) = written (heap s i) @ [MessageFrame PingMessage []]"
      "write_err (heap s1 i) = write_err (heap s i)" "wsClients s1 = wsClients s"
      "now s1 = now s + pingPeriod"
    by auto
  from Suc.IH [of s1] obtain s' where
    c: "pingWebSocket n (Conn i) s1 = Inr (StillLooping s')"
    and d: "written (heap s' i) = written (heap s1 i) @ replicate n (MessageFrame PingMessage [])"
      "write_err (heap s' i) = write_err (heap s1 i)" "wsClients s' = wsClients s1"
      "now s' = now s1 + n * pingPeriod"
    by auto
  have "pingWebSocket (Suc n) (Conn i) s = Inr (StillLooping s')"
    using a c by simp
  then show ?case using b d by (simp add: replicate_append_same)
qed

section \<open>Lock discipline of the operations that lock\<close>

lemma guarded_accesses:
  "\<forall>a \<in> set tr. a \<noteq> MuLock \<and> a \<noteq> MuUnlock \<Longrightarrow> guarded True (tr @ rest) = guarded True rest"
proof (induction tr)
  case Nil
  then show ?case by simp
next
  case (Cons a tr)
  then show ?case by (cases a) simp_all
qed

lemma forward_body_trace:
  "forward_body e c s = Inr s' \<Longrightarrow>
   \<exists>tr. trace s' = trace s @ tr \<and> (\<forall>a \<in> set tr. a \<noteq> MuLock \<and> a \<noteq> MuUnlock)"
  by (cases c; cases "write_err (heap s (case c of Conn i \<Rightarrow> i | NilConn \<Rightarrow> 0))")
    (auto simp: forward_body_def prims)

lemma forward_range_trace:
  "forward_range e cs s = Inr s' \<Longrightarrow>
   \<exists>tr. trace s' = trace s @ tr \<and> (\<forall>a \<in> set tr. a \<noteq> MuLock \<and> a \<noteq> MuUnlock)"
proof (induction cs arbitrary: s)
  case Nil
  then show ?case by simp
next
  case (Cons c cs)
  show ?case
  proof (cases "wsClients s c = None")
    case True
    with Cons show ?thesis by simp
  next
    case False
    let ?s0 = "s\<lparr>trace := trace s @ [MapRangeNext c]\<rparr>"
    from False Cons.prems obtain s1 where
      b: "forward_body e c ?s0 = Inr s1" and r: "forward_range e cs s1 = Inr s'"
      by (auto split: sum.splits)
    from forward_body_trace [OF b] obtain t1 where
      t1: "trace s1 = trace s @ MapRangeNext c # t1" "\<forall>a \<in> set t1. a \<noteq> MuLock \<and> a \<noteq> MuUnlock"
      by auto
    from Cons.IH [OF r] obtain t2 where
      t2: "trace s' = trace s1 @ t2" "\<forall>a \<in> set t2. a \<noteq> MuLock \<and> a \<noteq> MuUnlock"
      by auto
    have "trace s' = trace s @ (MapRangeNext c # t1 @ t2)" using t1 t2 by simp
    moreover have "\<forall>a \<in> set (MapRangeNext c # t1 @ t2). a \<noteq> MuLock \<and> a \<noteq> MuUnlock"
      using t1 t2 by auto
    ultimately show ?thesis by blast
  qed
qed

lemma ForwardEvent_holds_lock:
  assumes "trace s = []" "ForwardEvent e ord s = Inr s'"
  shows "guarded False (trace s')"
proof (cases "Key e = ''login'' \<or> Key e = ''card-read-error''")
  case True
  with assms(2) obtain s1 where r: "forward_range e ord (Lock s) = Inr s1" and u: "s' = Unlock s1"
    by (auto simp: ForwardEvent_def split: sum.splits)
  from forward_range_trace [OF r] assms(1) obtain tr where
    "trace s1 = MuLock # tr" "\<forall>a \<in> set tr. a \<noteq> MuLock \<and> a \<noteq> MuUnlock"
    by (auto simp: Lock_def)
  then show ?thesis using u guarded_accesses [of tr "[MuUnlock]"] by (simp add: Unlock_def)
next
  case False
  with assms show ?thesis by (simp add: ForwardEvent_def)
qed

lemma HandleWebsocket_holds_lock:
  "trace s = [] \<Longrightarrow> guarded False (trace (snd (HandleWebsocket (c, err) s)))"
  by (simp add: HandleWebsocket_effect)

section \<open>Effect of the reporter\<close>

lemma report_round_effect:
  "now (report_round d sid dev room m s) = now s + minute \<and>
   wsClients (report_round d sid dev room m s) = wsClients s \<and>
   heap (report_round d sid dev room m s) = heap s \<and>
   trace (report_round d sid dev room m s) = trace s @ [MapLen, MapLen] \<and>
   logs (report_round d sid dev room m s) =
     logs s @ [(DebugLevel, ''sending websocket count of : %d'', [NatArg (card (dom (wsClients s)))])] \<and>
   (\<exists>new. outbox (report_round d sid dev room m s) = outbox s @ new \<and>
      length new = (if m = NilMessenger then 0 else 1) \<and>
      map Key new = replicate (length new) ''websocket-count'' \<and>
      map Value new = replicate (length new) (itoa (card (dom (wsClients s)))) \<and>
      map Timestamp new = replicate (length new) (now s))"
  by (simp add: report_round_def Let_def map_len_def Debugf_def SendEvent_def Sleep_def)

lemma report_loop_effect:
  "\<exists>s' new. report_loop n d sid dev room m s = StillLooping s' \<and>
      now s' = now s + n * minute \<and>
      wsClients s' = wsClients s \<and>
      heap s' = heap s \<and>
      trace s' = trace s @ concat (replicate n [MapLen, MapLen]) \<and>
      filter is_error_entry (logs s') = filter is_error_entry (logs s) \<and>
      length (logs s') = length (logs s) + n \<and>
      outbox s' = outbox s @ new \<and>
      length new = (if m = NilMessenger then 0 else n) \<and>
      map Key new = replicate (length new) ''websocket-count'' \<and>
      map Value new = replicate (length new) (itoa (card (dom (wsClients s)))) \<and>
      map Timestamp new = map (\<lambda>k. now s + k * minute) [0..<length new]"
proof (induction n arbitrary: s)
  case 0
  then show ?case by simp
next
  case (Suc n)
  let ?s1 = "report_round d sid dev room m s"
  from report_round_effect [of d sid dev room m s] obtain new1 where
    a: "now ?s1 = now s + minute" "wsClients ?s1 = wsClients s" "heap ?s1 = heap s"
      "trace ?s1 = trace s @ [MapLen, MapLen]"
      "logs ?s1 = logs s @ [(DebugLevel, ''sending websocket count of : %d'', [NatArg (card (dom (wsClients s)))])]"
    and b: "outbox ?s1 = outbox s @ new1"
      "length new1 = (if m = NilMessenger then 0 else 1)"
      "map Key new1 = replicate (length new1) ''websocket-count''"
      "map Value new1 = replicate (length new1) (itoa (card (dom (wsClients s))))"
      "map Timestamp new1 = replicate (length new1) (now s)"
    by blast
  from Suc.IH [of ?s1] obtain s' new2 where
    c: "report_loop n d sid dev room m ?s1 = StillLooping s'"
      "now s' = now ?s1 + n * minute" "wsClients s' = wsClients ?s1" "heap s' = heap ?s1"
      "trace s' = trace ?s1 @ concat (replicate n [MapLen, MapLen])"
      "filter is_error_entry (logs s') = filter is_error_entry (logs ?s1)"
      "length (logs s') = length (logs ?s1) + n"
    and e: "outbox s' = outbox ?s1 @ new2"
      "length new2 = (if m = NilMessenger then 0 else n)"
      "map Key new2 = replicate (length new2) ''websocket-count''"
      "map Value new2 = replicate (length new2) (itoa (card (dom (wsClients ?s1))))"
      "map Timestamp new2 = map (\<lambda>k. now ?s1 + k * minute) [0..<length new2]"
    by blast
  have run: "report_loop (Suc n) d sid dev room m s = StillLooping s'" using c(1) by simp
  have t: "map Timestamp (new1 @ new2) = map (\<lambda>k. now s + k * minute) [0..<length (new1 @ new2)]"
  proof (cases "m = NilMessenger")
    case True
    then show ?thesis using b e by simp
  next
    case False
    then have l: "length new1 = 1" "length new2 = n" using b e by simp_all
    have "map (\<lambda>k. now s + k * minute) [0..<Suc n]
          = now s # map (\<lambda>k. now s + Suc k * minute) [0..<n]"
      by (simp only: map_upt_Suc) simp
    then show ?thesis using b(5) e(5) l a(1) by (simp add: add.assoc add.commute)
  qed
  have k: "map Key (new1 @ new2) = replicate (length (new1 @ new2)) ''websocket-count''"
    using b(3) e(3) by (simp add: replicate_add)
  have v: "map Value (new1 @ new2) = replicate (length (new1 @ new2)) (itoa (card (dom (wsClients s))))"
    using b(4) e(4) a(2) by (simp add: replicate_add)
  have len: "length (new1 @ new2) = (if m = NilMessenger then 0 else Suc n)"
    using b(2) e(2) by simp
  have o: "outbox s' = outbox s @ (new1 @ new2)" using b(1) e(1) by simp
  have f: "filter is_error_entry (logs s') = filter is_error_entry (logs s)"
    using c(6) a(5) by (simp add: is_error_entry_def)
  have tr: "trace s' = trace s @ concat (replicate (Suc n) [MapLen, MapLen])"
    using c(5) a(4) by simp
  have rest: "now s' = now s + Suc n * minute" "wsClients s' = wsClients s" "heap s' = heap s"
    "length (logs s') = length (logs s) + Suc n"
    using c a by simp_all
  show ?case
    using run rest tr f o len k v t by blast
qed

section \<open>Claims\<close>

text \<open>
  C1, as stated, fails: on a service with no registered connection a \<open>login\<close> event
  takes the lock, finds nothing to visit and releases the lock. The key is in the
  allow-set and yet nothing is written to any connection.
\<close>

theorem ForwardEvent_filter_counterexample:
  "Key login_event \<in> {''login'', ''card-read-error''} \<and>
   dom (wsClients empty_world) = {} \<and>
   ForwardEvent login_event [] empty_world = Inr (empty_world\<lparr>trace := [MuLock, MuUnlock]\<rparr>) \<and>
   heap_after (ForwardEvent login_event [] empty_world) = Some (heap empty_world)"
  by (simp add: ForwardEvent_def Lock_def Unlock_def heap_after_def example_defs)

text \<open>
  C1, amended. An event whose key is neither \<open>login\<close> nor \<open>card-read-error\<close> leaves
  the whole state as it was: no lock, no write, no change of the map. For a map that
  holds no nil pointer, in any order of iteration, \<open>ForwardEvent\<close> returns, and it has
  written to no connection if and only if the key is outside the allow-set or the map is
  empty. With a key in the allow-set every registered connection is handed the event
  once (followed by a close message when the write fails) and no other connection is
  handed anything.
\<close>

theorem ForwardEvent_filter:
  "(Key e \<notin> {''login'', ''card-read-error''} \<longrightarrow> ForwardEvent e ord s = Inr s) \<and>
   (NilConn \<notin> dom (wsClients s) \<and> distinct ord \<and> set ord = dom (wsClients s) \<longrightarrow>
      (\<exists>s'. ForwardEvent e ord s = Inr s' \<and>
         ((\<forall>j. written (heap s' j) = written (heap s j))
            \<longleftrightarrow> Key e \<notin> {''login'', ''card-read-error''} \<or> dom (wsClients s) = {}) \<and>
         (Key e \<in> {''login'', ''card-read-error''} \<longrightarrow>
            (\<forall>j. written (heap s' j) =
               (if Conn j \<in> dom (wsClients s)
                then written (heap s j) @ JSONFrame e #
                       (if write_err (heap s j) = None then []
                        else [MessageFrame CloseMessage []])
                else written (heap s j))))))"
proof (intro conjI impI)
  assume "Key e \<notin> {''login'', ''card-read-error''}"
  then show "ForwardEvent e ord s = Inr s" by (simp add: ForwardEvent_dropped)
next
  assume a: "NilConn \<notin> dom (wsClients s) \<and> distinct ord \<and> set ord = dom (wsClients s)"
  show "\<exists>s'. ForwardEvent e ord s = Inr s' \<and>
         ((\<forall>j. written (heap s' j) = written (heap s j))
            \<longleftrightarrow> Key e \<notin> {''login'', ''card-read-error''} \<or> dom (wsClients s) = {}) \<and>
         (Key e \<in> {''login'', ''card-read-error''} \<longrightarrow>
            (\<forall>j. written (heap s' j) =
               (if Conn j \<in> dom (wsClients s)
                then written (heap s j) @ JSONFrame e #
                       (if write_err (heap s j) = None then []
                        else [MessageFrame CloseMessage []])
                else written (heap s j))))"
  proof (cases "Key e = ''login'' \<or> Key e = ''card-read-error''")
    case False
    then have "ForwardEvent e ord s = Inr s" by (simp add: ForwardEvent_dropped)
    then show ?thesis using False by simp
  next
    case True
    from ForwardEvent_effect [OF True, of s ord] a obtain s' where
      r: "ForwardEvent e ord s = Inr s'"
      and u: "\<forall>j. Conn j \<notin> dom (wsClients s) \<longrightarrow> heap s' j = heap s j"
      and v: "\<forall>j. Conn j \<in> dom (wsClients s) \<longrightarrow>
           written (heap s' j) =
             written (heap s j) @ JSONFrame e #
               (if write_fails s (Conn j) then [MessageFrame CloseMessage []] else [])"
      by blast
    have w: "\<forall>j. written (heap s' j) =
               (if Conn j \<in> dom (wsClients s)
                then written (heap s j) @ JSONFrame e #
                       (if write_err (heap s j) = None then []
                        else [MessageFrame CloseMessage []])
                else written (heap s j))"
    proof
      fix j
      show "written (heap s' j) =
               (if Conn j \<in> dom (wsClients s)
                then written (heap s j) @ JSONFrame e #
                       (if write_err (heap s j) = None then []
                        else [MessageFrame CloseMessage []])
                else written (heap s j))"
      proof (cases "Conn j \<in> dom (wsClients s)")
        case True
        with v show ?thesis by (simp add: write_fails_def)
      next
        case False
        with u show ?thesis by simp
      qed
    qed
    have z: "(\<forall>j. written (heap s' j) = written (heap s j)) \<longleftrightarrow> dom (wsClients s) = {}"
    proof
      assume all: "\<forall>j. written (heap s' j) = written (heap s j)"
      show "dom (wsClients s) = {}"
      proof (rule ccontr)
        assume "dom (wsClients s) \<noteq> {}"
        then obtain c where c: "c \<in> dom (wsClients s)" by blast
        with a obtain j where "c = Conn j" by (cases c) auto
        with c w have "written (heap s' j) \<noteq> written (heap s j)" by simp
        with all show False by simp
      qed
    next
      assume "dom (wsClients s) = {}"
      with w show "\<forall>j. written (heap s' j) = written (heap s j)" by simp
    qed
    show ?thesis using r w z True by auto
  qed
qed

text \<open>
  The theorem at the map \<open>{A, B, C}\<close>: an event with another key changes nothing; a
  \<open>login\<close> event reaches \<open>A\<close>, \<open>B\<close> and \<open>C\<close> and not the unregistered address 3.
\<close>

theorem ForwardEvent_filter_witness:
  "Key other_event \<notin> {''login'', ''card-read-error''} \<and>
   ForwardEvent other_event [Conn 2, Conn 0, Conn 1] world_ABC = Inr world_ABC \<and>
   Key login_event \<in> {''login'', ''card-read-error''} \<and>
   NilConn \<notin> dom (wsClients world_ABC) \<and> distinct [Conn 2, Conn 0, Conn 1] \<and>
   set [Conn 2, Conn 0, Conn 1] = dom (wsClients world_ABC) \<and>
   sent_to 0 (ForwardEvent login_event [Conn 2, Conn 0, Conn 1] world_ABC)
     = Some [JSONFrame login_event, MessageFrame CloseMessage []] \<and>
   sent_to 1 (ForwardEvent login_event [Conn 2, Conn 0, Conn 1] world_ABC)
     = Some [JSONFrame login_event] \<and>
   sent_to 2 (ForwardEvent login_event [Conn 2, Conn 0, Conn 1] world_ABC)
     = Some [JSONFrame login_event] \<and>
   sent_to 3 (ForwardEvent login_event [Conn 2, Conn 0, Conn 1] world_ABC) = Some []"
proof -
  have h: "NilConn \<notin> dom (wsClients world_ABC) \<and> distinct [Conn 2, Conn 0, Conn 1] \<and>
    set [Conn 2, Conn 0, Conn 1] = dom (wsClients world_ABC)"
    by (auto simp: example_defs)
  have k: "Key other_event \<notin> {''login'', ''card-read-error''}"
    "Key login_event \<in> {''login'', ''card-read-error''}"
    by (simp_all add: example_defs)
  have d: "dom (wsClients world_ABC) = {Conn 0, Conn 1, Conn 2}"
    by (auto simp: example_defs)
  have o: "ForwardEvent other_event [Conn 2, Conn 0, Conn 1] world_ABC = Inr world_ABC"
    using ForwardEvent_filter [of other_event "[Conn 2, Conn 0, Conn 1]" world_ABC] k by blast
  from ForwardEvent_filter [of login_event "[Conn 2, Conn 0, Conn 1]" world_ABC] h k obtain s' where
    r: "ForwardEvent login_event [Conn 2, Conn 0, Conn 1] world_ABC = Inr s'"
    and w: "\<forall>j. written (heap s' j) =
               (if Conn j \<in> dom (wsClients world_ABC)
                then written (heap world_ABC j) @ JSONFrame login_event #
                       (if write_err (heap world_ABC j) = None then []
                        else [MessageFrame CloseMessage []])
                else written (heap world_ABC j))"
    by blast
  have g: "written (heap world_ABC 0) = []" "written (heap world_ABC 1) = []"
    "written (heap world_ABC 2) = []" "written (heap world_ABC 3) = []"
    "write_err (heap world_ABC 0) \<noteq> None" "write_err (heap world_ABC 1) = None"
    "write_err (heap world_ABC 2) = None"
    by (simp_all add: example_defs)
  have s0: "sent_to 0 (ForwardEvent login_event [Conn 2, Conn 0, Conn 1] world_ABC)
     = Some [JSONFrame login_event, MessageFrame CloseMessage []]"
    unfolding r using w [rule_format, of 0] d g by (simp add: sent_to_def)
  have s1: "sent_to 1 (ForwardEvent login_event [Conn 2, Conn 0, Conn 1] world_ABC)
     = Some [JSONFrame login_event]"
    unfolding r using w [rule_format, of 1] d g by (simp add: sent_to_def)
  have s2: "sent_to 2 (ForwardEvent login_event [Conn 2, Conn 0, Conn 1] world_ABC)
     = Some [JSONFrame login_event]"
    unfolding r using w [rule_format, of 2] d g by (simp add: sent_to_def)
  have s3: "sent_to 3 (ForwardEvent login_event [Conn 2, Conn 0, Conn 1] world_ABC) = Some []"
    unfolding r using w [rule_format, of 3] d g by (simp add: sent_to_def)
  from k(1) o k(2) h s0 s1 s2 s3 show ?thesis by blast
qed

text \<open>
  C2. In a broadcast pass every registered connection is handed the event exactly once,
  in any order of iteration and whatever happens to the others. A connection whose write
  succeeds stays in the map and is not closed; one whose write fails is deleted from the
  map, handed a close message and closed once.
\<close>

theorem ForwardEvent_isolation:
  assumes "Key e = ''login'' \<or> Key e = ''card-read-error''"
    and "NilConn \<notin> dom (wsClients s)" "distinct ord" "set ord = dom (wsClients s)"
  shows "\<exists>s'. ForwardEvent e ord s = Inr s' \<and>
           (\<forall>j. Conn j \<in> dom (wsClients s) \<longrightarrow>
              (if write_err (heap s j) = None
               then written (heap s' j) = written (heap s j) @ [JSONFrame e] \<and>
                    wsClients s' (Conn j) = wsClients s (Conn j) \<and>
                    close_calls (heap s' j) = close_calls (heap s j)
               else written (heap s' j) =
                      written (heap s j) @ [JSONFrame e, MessageFrame CloseMessage []] \<and>
                    wsClients s' (Conn j) = None \<and>
                    close_calls (heap s' j) = Suc (close_calls (heap s j))))"
proof -
  from ForwardEvent_effect [OF assms] obtain s' where
    r: "ForwardEvent e ord s = Inr s'"
    and w: "wsClients s' = (\<lambda>c. if write_fails s c then None else wsClients s c)"
    and v: "\<forall>j. Conn j \<in> dom (wsClients s) \<longrightarrow>
           written (heap s' j) =
             written (heap s j) @ JSONFrame e #
               (if write_fails s (Conn j) then [MessageFrame CloseMessage []] else []) \<and>
           close_calls (heap s' j) =
             close_calls (heap s j) + (if write_fails s (Conn j) then 1 else 0)"
    by blast
  show ?thesis
    using r w v by (auto simp: write_fails_def)
qed

text \<open>
  The theorem at the map \<open>{A, B, C}\<close> where the write to \<open>A\<close> (address 0) fails.
\<close>

theorem ForwardEvent_isolation_witness:
  "(Key login_event = ''login'' \<or> Key login_event = ''card-read-error'') \<and>
   NilConn \<notin> dom (wsClients world_ABC) \<and> distinct [Conn 0, Conn 1, Conn 2] \<and>
   set [Conn 0, Conn 1, Conn 2] = dom (wsClients world_ABC) \<and>
   sent_to 0 (ForwardEvent login_event [Conn 0, Conn 1, Conn 2] world_ABC)
     = Some [JSONFrame login_event, MessageFrame CloseMessage []] \<and>
   sent_to 1 (ForwardEvent login_event [Conn 0, Conn 1, Conn 2] world_ABC)
     = Some [JSONFrame login_event] \<and>
   sent_to 2 (ForwardEvent login_event [Conn 0, Conn 1, Conn 2] world_ABC)
     = Some [JSONFrame login_event] \<and>
   closes_of 0 (ForwardEvent login_event [Conn 0, Conn 1, Conn 2] world_ABC) = Some 1 \<and>
   registered_after (ForwardEvent login_event [Conn 0, Conn 1, Conn 2] world_ABC)
     = Some {Conn 1, Conn 2}"
proof -
  have h: "Key login_event = ''login'' \<or> Key login_event = ''card-read-error''"
    "NilConn \<notin> dom (wsClients world_ABC)" "distinct [Conn 0, Conn 1, Conn 2]"
    "set [Conn 0, Conn 1, Conn 2] = dom (wsClients world_ABC)"
    by (auto simp: example_defs)
  from ForwardEvent_isolation [OF h] obtain s' where
    r: "ForwardEvent login_event [Conn 0, Conn 1, Conn 2] world_ABC = Inr s'"
    and v: "\<forall>j. Conn j \<in> dom (wsClients world_ABC) \<longrightarrow>
              (if write_err (heap world_ABC j) = None
               then written (heap s' j) = written (heap world_ABC j) @ [JSONFrame login_event] \<and>
                    wsClients s' (Conn j) = wsClients world_ABC (Conn j) \<and>
                    close_calls (heap s' j) = close_calls (heap world_ABC j)
               else written (heap s' j) =
                      written (heap world_ABC j) @ [JSONFrame login_event, MessageFrame CloseMessage []] \<and>
                    wsClients s' (Conn j) = None \<and>
                    close_calls (heap s' j) = Suc (close_calls (heap world_ABC j)))"
    by blast
  have d: "dom (wsClients s') = {Conn 1, Conn 2}"
    using r by (auto simp: example_defs ForwardEvent_def forward_body_def prims split: if_splits)
  from v [rule_format, of 0] v [rule_format, of 1] v [rule_format, of 2]
  show ?thesis using h r d by (simp add: observer_defs) (simp add: example_defs)
qed

text \<open>
  C3. When the upgrade fails, \<open>HandleWebsocket\<close> logs the error and then carries on:
  the nil pointer is stored in the map and both goroutines are started for it. The
  function has no \<open>return\<close> in its error branch.
\<close>

theorem HandleWebsocket_failed_upgrade:
  "dom (wsClients (snd (HandleWebsocket (NilConn, Some (OtherError ''bad handshake'')) empty_world)))
     = {NilConn} \<and>
   spawned (snd (HandleWebsocket (NilConn, Some (OtherError ''bad handshake'')) empty_world))
     = [HandleCloseTask NilConn, PingWebSocketTask NilConn] \<and>
   logs (snd (HandleWebsocket (NilConn, Some (OtherError ''bad handshake'')) empty_world))
     = [(ErrorLevel, ''Error while attempting to upgrade connection to websocket: %v'',
         [ErrArg (OtherError ''bad handshake'')])]"
  by (simp add: HandleWebsocket_effect empty_world_def)

text \<open>
  C4, as stated, fails: with the map \<open>{A, B, C}\<close> and a failing write to \<open>A\<close>, the
  \<open>delete\<close> of \<open>A\<close> happens between the visit of \<open>A\<close> and the visits of \<open>B\<close> and
  \<open>C\<close>, and after the step for \<open>A\<close> alone the map is already \<open>{B, C}\<close>.
\<close>

theorem ForwardEvent_deferred_removal_counterexample:
  "trace_of (ForwardEvent login_event [Conn 0, Conn 1, Conn 2] world_ABC)
     = Some [MuLock, MapRangeNext (Conn 0), MapDelete (Conn 0),
             MapRangeNext (Conn 1), MapRangeNext (Conn 2), MuUnlock] \<and>
   registered_after (forward_body login_event (Conn 0) world_ABC) = Some {Conn 1, Conn 2}"
  by (auto simp: observer_defs example_defs ForwardEvent_def forward_body_def prims)

text \<open>
  C4, amended. A connection whose write fails is deleted from the map inside its own
  step of the loop, and that step deletes no other key. When the pass is over the map
  holds exactly the connections it held before whose writes did not fail.
\<close>

theorem ForwardEvent_prunes_in_place:
  "(\<exists>s'. forward_body e (Conn i) s = Inr s' \<and>
         wsClients s' = (if write_err (heap s i) = None then wsClients s
                         else (wsClients s)(Conn i := None))) \<and>
   ((Key e = ''login'' \<or> Key e = ''card-read-error'') \<and> NilConn \<notin> dom (wsClients s) \<and>
    distinct ord \<and> set ord = dom (wsClients s) \<longrightarrow>
    (\<exists>s'. ForwardEvent e ord s = Inr s' \<and>
       dom (wsClients s') = {c \<in> dom (wsClients s). \<not> write_fails s c}))"
proof (intro conjI impI)
  show "\<exists>s'. forward_body e (Conn i) s = Inr s' \<and>
         wsClients s' = (if write_err (heap s i) = None then wsClients s
                         else (wsClients s)(Conn i := None))"
    using forward_body_effect [of e i s] by blast
next
  assume a: "(Key e = ''login'' \<or> Key e = ''card-read-error'') \<and> NilConn \<notin> dom (wsClients s) \<and>
    distinct ord \<and> set ord = dom (wsClients s)"
  then obtain s' where r: "ForwardEvent e ord s = Inr s'"
    and w: "wsClients s' = (\<lambda>c. if write_fails s c then None else wsClients s c)"
    using ForwardEvent_effect [of e s ord] by blast
  have "dom (wsClients s') = {c \<in> dom (wsClients s). \<not> write_fails s c}"
    unfolding w by (auto split: if_splits)
  with r show "\<exists>s'. ForwardEvent e ord s = Inr s' \<and>
       dom (wsClients s') = {c \<in> dom (wsClients s). \<not> write_fails s c}" by blast
qed

text \<open>The theorem at the map \<open>{A, B, C}\<close>, visited in the order \<open>C, B, A\<close>.\<close>

theorem ForwardEvent_prunes_in_place_witness:
  "registered_after (forward_body login_event (Conn 0) world_ABC) = Some {Conn 1, Conn 2} \<and>
   (Key login_event = ''login'' \<or> Key login_event = ''card-read-error'') \<and>
   NilConn \<notin> dom (wsClients world_ABC) \<and> distinct [Conn 2, Conn 1, Conn 0] \<and>
   set [Conn 2, Conn 1, Conn 0] = dom (wsClients world_ABC) \<and>
   registered_after (ForwardEvent login_event [Conn 2, Conn 1, Conn 0] world_ABC)
     = Some {Conn 1, Conn 2}"
proof -
  have h: "(Key login_event = ''login'' \<or> Key login_event = ''card-read-error'') \<and>
    NilConn \<notin> dom (wsClients world_ABC) \<and> distinct [Conn 2, Conn 1, Conn 0] \<and>
    set [Conn 2, Conn 1, Conn 0] = dom (wsClients world_ABC)"
    by (auto simp: example_defs)
  have d: "dom (wsClients world_ABC) = {Conn 0, Conn 1, Conn 2}"
    by (auto simp: example_defs)
  have w: "write_fails world_ABC (Conn 0)" "\<not> write_fails world_ABC (Conn 1)"
    "\<not> write_fails world_ABC (Conn 2)"
    by (simp_all add: example_defs write_fails_def)
  have f: "{c \<in> dom (wsClients world_ABC). \<not> write_fails world_ABC c} = {Conn 1, Conn 2}"
    unfolding d using w by auto
  from ForwardEvent_prunes_in_place [of login_event 0 world_ABC "[Conn 2, Conn 1, Conn 0]"] h f
  have "registered_after (ForwardEvent login_event [Conn 2, Conn 1, Conn 0] world_ABC)
     = Some {Conn 1, Conn 2}"
    by (auto simp: registered_after_def)
  moreover have "registered_after (forward_body login_event (Conn 0) world_ABC) = Some {Conn 1, Conn 2}"
    by (auto simp: observer_defs example_defs forward_body_def prims)
  ultimately show ?thesis using h by simp
qed

text \<open>
  C5, as stated, fails: a connection whose broadcast write fails is closed by
  \<open>ForwardEvent\<close>, and closed a second time when its reader, \<open>handleClose\<close>, sees the
  read fail and runs its deferred function.
\<close>

theorem removal_double_close_counterexample:
  "closes_of 0 (ForwardEvent login_event [Conn 0, Conn 1, Conn 2] world_ABC) = Some 1 \<and>
   closes_of 0
     (and_then (ForwardEvent login_event [Conn 0, Conn 1, Conn 2] world_ABC)
        (handleClose (Conn 0) [Fail (OtherError ''use of closed network connection'')]))
     = Some 2"
  by (simp add: observer_defs example_defs ForwardEvent_def forward_body_def prims
      handleClose_def handleClose_deferred_def read_prims
      IsCloseError_def)

text \<open>
  C5, amended. Deleting a connection that is not in the map leaves the map as it was
  and raises nothing. Each removal path hands the connection a close message and calls
  \<open>Close\<close> once per run, whether or not the connection is still in the map: the
  reader's deferred function always, the broadcast whenever the write fails. So a
  connection removed by a failed broadcast write gets a second close message and a
  second \<open>Close\<close> when its reader ends.
\<close>

theorem removal_closes_on_every_path:
  "(\<exists>s'. handleClose (Conn i) inb s = Inr s' \<and>
          wsClients s' = (wsClients s)(Conn i := None) \<and>
          written (heap s' i) = written (heap s i) @ [MessageFrame CloseMessage []] \<and>
          close_calls (heap s' i) = Suc (close_calls (heap s i))) \<and>
   (wsClients s (Conn i) = None \<longrightarrow>
      registered_after (handleClose (Conn i) inb s) = Some (dom (wsClients s))) \<and>
   (write_err (heap s i) \<noteq> None \<longrightarrow>
      (\<exists>s'. forward_body e (Conn i) s = Inr s' \<and>
          wsClients s' = (wsClients s)(Conn i := None) \<and>
          written (heap s' i) =
            written (heap s i) @ [JSONFrame e, MessageFrame CloseMessage []] \<and>
          close_calls (heap s' i) = Suc (close_calls (heap s i))) \<and>
      sent_to i (and_then (forward_body e (Conn i) s) (handleClose (Conn i) inb))
        = Some (written (heap s i) @
                [JSONFrame e, MessageFrame CloseMessage [], MessageFrame CloseMessage []]) \<and>
      closes_of i (and_then (forward_body e (Conn i) s) (handleClose (Conn i) inb))
        = Some (Suc (Suc (close_calls (heap s i)))))"
proof (intro conjI impI)
  show "\<exists>s'. handleClose (Conn i) inb s = Inr s' \<and>
          wsClients s' = (wsClients s)(Conn i := None) \<and>
          written (heap s' i) = written (heap s i) @ [MessageFrame CloseMessage []] \<and>
          close_calls (heap s' i) = Suc (close_calls (heap s i))"
    using handleClose_effect [of i inb s] by blast
next
  assume "wsClients s (Conn i) = None"
  then have "(wsClients s)(Conn i := None) = wsClients s" by (simp add: fun_eq_iff)
  then show "registered_after (handleClose (Conn i) inb s) = Some (dom (wsClients s))"
    using handleClose_effect [of i inb s] by (auto simp: registered_after_def)
next
  assume f: "write_err (heap s i) \<noteq> None"
  from forward_body_effect [of e i s] f obtain s1 where
    b: "forward_body e (Conn i) s = Inr s1"
      "wsClients s1 = (wsClients s)(Conn i := None)"
      "written (heap s1 i) = written (heap s i) @ [JSONFrame e, MessageFrame CloseMessage []]"
      "close_calls (heap s1 i) = Suc (close_calls (heap s i))"
    by auto
  from handleClose_effect [of i inb s1] obtain s2 where
    c: "handleClose (Conn i) inb s1 = Inr s2"
      "written (heap s2 i) = written (heap s1 i) @ [MessageFrame CloseMessage []]"
      "close_calls (heap s2 i) = Suc (close_calls (heap s1 i))"
    by blast
  show "\<exists>s'. forward_body e (Conn i) s = Inr s' \<and>
          wsClients s' = (wsClients s)(Conn i := None) \<and>
          written (heap s' i) =
            written (heap s i) @ [JSONFrame e, MessageFrame CloseMessage []] \<and>
          close_calls (heap s' i) = Suc (close_calls (heap s i))"
    using b by blast
  show "sent_to i (and_then (forward_body e (Conn i) s) (handleClose (Conn i) inb))
        = Some (written (heap s i) @
                [JSONFrame e, MessageFrame CloseMessage [], MessageFrame CloseMessage []])"
    using b c by (simp add: sent_to_def and_then_def)
  show "closes_of i (and_then (forward_body e (Conn i) s) (handleClose (Conn i) inb))
        = Some (Suc (Suc (close_calls (heap s i))))"
    using b c by (simp add: closes_of_def and_then_def)
qed

text \<open>
  The theorem at a connection that was never registered, and at the failing connection
  \<open>A\<close> of the map \<open>{A, B, C}\<close>.
\<close>

theorem removal_closes_on_every_path_witness:
  "wsClients empty_world (Conn 0) = None \<and>
   registered_after (handleClose (Conn 0) [] empty_world) = Some (dom (wsClients empty_world)) \<and>
   sent_to 0 (handleClose (Conn 0) [] empty_world) = Some [MessageFrame CloseMessage []] \<and>
   closes_of 0 (handleClose (Conn 0) [] empty_world) = Some 1 \<and>
   write_err (heap world_ABC 0) \<noteq> None \<and>
   sent_to 0 (forward_body login_event (Conn 0) world_ABC)
     = Some [JSONFrame login_event, MessageFrame CloseMessage []] \<and>
   closes_of 0 (forward_body login_event (Conn 0) world_ABC) = Some 1 \<and>
   sent_to 0 (and_then (forward_body login_event (Conn 0) world_ABC) (handleClose (Conn 0) []))
     = Some [JSONFrame login_event, MessageFrame CloseMessage [], MessageFrame CloseMessage []] \<and>
   closes_of 0 (and_then (forward_body login_event (Conn 0) world_ABC) (handleClose (Conn 0) []))
     = Some 2"
proof -
  have h: "wsClients empty_world (Conn 0) = None" "write_err (heap world_ABC 0) \<noteq> None"
    by (simp_all add: example_defs)
  have g: "written (heap empty_world 0) = []" "close_calls (heap empty_world 0) = 0"
    "written (heap world_ABC 0) = []" "close_calls (heap world_ABC 0) = 0"
    by (simp_all add: example_defs)
  from removal_closes_on_every_path [of 0 "[]" empty_world login_event]
    removal_closes_on_every_path [of 0 "[]" world_ABC login_event] h g
  show ?thesis
    by (auto simp: closes_of_def sent_to_def)
qed

text \<open>
  C6. On a connection whose writes fail, the heartbeat sender does not stop: after three
  firings of the ticker it has handed three pings to the connection and is still in its
  loop. The \<open>break\<close> after the failed write ends the \<open>select\<close>, not the \<open>for\<close>.
\<close>

theorem pingWebSocket_keeps_probing:
  "write_err (heap world_ABC 0) = Some (OtherError ''broken pipe'') \<and>
   \<not> has_returned (pingWebSocket 3 (Conn 0) world_ABC) \<and>
   sent_to 0 (loop_state (pingWebSocket 3 (Conn 0) world_ABC))
     = Some [MessageFrame PingMessage [], MessageFrame PingMessage [], MessageFrame PingMessage []]"
proof -
  from pingWebSocket_effect [of 3 0 world_ABC] obtain s' where
    "pingWebSocket 3 (Conn 0) world_ABC = Inr (StillLooping s')"
    "written (heap s' 0) = written (heap world_ABC 0) @ replicate 3 (MessageFrame PingMessage [])"
    by blast
  then show ?thesis
    by (simp add: has_returned_def loop_state_def returned_def outcome_state_def sent_to_def
        example_defs numeral_3_eq_3)
qed

text \<open>
  C7. The reader's removal path deletes from the map without taking the lock: the only
  access \<open>handleClose\<close> makes is a \<open>delete\<close>, with no \<open>Lock\<close> before it. Admission
  and broadcast do hold the lock (\<open>HandleWebsocket_holds_lock\<close>,
  \<open>ForwardEvent_holds_lock\<close>).
\<close>

theorem handleClose_takes_no_lock:
  "trace_of (handleClose (Conn 0) [Fail (CloseError 1001)] world_ABC) = Some [MapDelete (Conn 0)] \<and>
   \<not> accesses_guarded (handleClose (Conn 0) [Fail (CloseError 1001)] world_ABC)"
proof -
  from handleClose_effect [of 0 "[Fail (CloseError 1001)]" world_ABC] obtain s' where
    "handleClose (Conn 0) [Fail (CloseError 1001)] world_ABC = Inr s'"
    "trace s' = trace world_ABC @ [MapDelete (Conn 0)]"
    by blast
  then show ?thesis
    by (simp add: trace_of_def accesses_guarded_def example_defs)
qed

text \<open>
  C9. The reporter never returns. In each round it reads the size of the map and, when
  the messenger was built, hands the hub one event with key \<open>websocket-count\<close>, the
  size in decimal as value and the time of the round as timestamp; then it sleeps a
  minute. A failure to build the messenger is logged once, before the loop, and the
  rounds go on without sending.
\<close>

theorem reportWebSocketCount_keeps_reporting:
  "\<exists>s' new. reportWebSocketCount n d s = StillLooping s' \<and>
      now s' = now s + n * minute \<and>
      wsClients s' = wsClients s \<and>
      trace s' = trace s @ concat (replicate n [MapLen, MapLen]) \<and>
      filter is_error_entry (logs s') =
        filter is_error_entry (logs s) @
          (case snd (BuildMessenger d) of
             None \<Rightarrow> []
           | Some err \<Rightarrow>
               [(ErrorLevel, ''unable to build websocket count messenger: %s'', [ErrArg err])]) \<and>
      outbox s' = outbox s @ new \<and>
      length new = (if fst (BuildMessenger d) = NilMessenger then 0 else n) \<and>
      map Key new = replicate (length new) ''websocket-count'' \<and>
      map Value new = replicate (length new) (itoa (card (dom (wsClients s)))) \<and>
      map Timestamp new = map (\<lambda>k. now s + k * minute) [0..<length new]"
proof -
  obtain m err where bm: "BuildMessenger d = (m, err)" by (cases "BuildMessenger d")
  let ?id = "MustSystemID d"
  let ?dev = "GenerateBasicDeviceInfo d ?id"
  let ?room = "GenerateBasicRoomInfo d (RoomID ?dev)"
  show ?thesis
  proof (cases err)
    case None
    then have r: "reportWebSocketCount n d s = report_loop n d ?id ?dev ?room m s"
      using bm by (simp add: reportWebSocketCount_def Let_def)
    from report_loop_effect [of n d ?id ?dev ?room m s] show ?thesis
      unfolding r using None bm by auto
  next
    case (Some x)
    let ?s1 = "Errorf ''unable to build websocket count messenger: %s'' [ErrArg x] s"
    have r: "reportWebSocketCount n d s = report_loop n d ?id ?dev ?room m ?s1"
      using Some bm by (simp add: reportWebSocketCount_def Let_def)
    have f: "now ?s1 = now s" "wsClients ?s1 = wsClients s" "trace ?s1 = trace s"
      "outbox ?s1 = outbox s"
      "filter is_error_entry (logs ?s1) = filter is_error_entry (logs s) @
         [(ErrorLevel, ''unable to build websocket count messenger: %s'', [ErrArg x])]"
      by (simp_all add: Errorf_def is_error_entry_def)
    from report_loop_effect [of n d ?id ?dev ?room m ?s1] show ?thesis
      unfolding r f using Some bm by auto
  qed
qed

text \<open>
  Two rounds over the map \<open>{A, B, C}\<close>: with the hub, two events of value \<open>3\<close> a
  minute apart; without it, no event, and two minutes have passed.
\<close>

theorem reportWebSocketCount_keeps_reporting_witness:
  "\<not> returned (reportWebSocketCount 2 ok_deps world_ABC) \<and>
   map Value (outbox (outcome_state (reportWebSocketCount 2 ok_deps world_ABC))) = [''3'', ''3''] \<and>
   map Timestamp (outbox (outcome_state (reportWebSocketCount 2 ok_deps world_ABC)))
     = [0, 60000000000] \<and>
   \<not> returned (reportWebSocketCount 2 no_hub_deps world_ABC) \<and>
   outbox (outcome_state (reportWebSocketCount 2 no_hub_deps world_ABC)) = [] \<and>
   now (outcome_state (reportWebSocketCount 2 no_hub_deps world_ABC)) = 120000000000"
proof -
  have c: "card (dom (wsClients world_ABC)) = 3" "now world_ABC = 0" "outbox world_ABC = []"
    by (simp_all add: example_defs)
  have m: "fst (BuildMessenger ok_deps) \<noteq> NilMessenger"
    "fst (BuildMessenger no_hub_deps) = NilMessenger"
    by (simp_all add: ok_deps_def no_hub_deps_def)
  from reportWebSocketCount_keeps_reporting [of 2 ok_deps world_ABC] obtain s1 new1 where
    a: "reportWebSocketCount 2 ok_deps world_ABC = StillLooping s1"
      "outbox s1 = outbox world_ABC @ new1"
      "length new1 = (if fst (BuildMessenger ok_deps) = NilMessenger then 0 else 2)"
      "map Value new1 = replicate (length new1) (itoa (card (dom (wsClients world_ABC))))"
      "map Timestamp new1 = map (\<lambda>k. now world_ABC + k * minute) [0..<length new1]"
    by blast
  from reportWebSocketCount_keeps_reporting [of 2 no_hub_deps world_ABC] obtain s2 new2 where
    b: "reportWebSocketCount 2 no_hub_deps world_ABC = StillLooping s2"
      "now s2 = now world_ABC + 2 * minute"
      "outbox s2 = outbox world_ABC @ new2"
      "length new2 = (if fst (BuildMessenger no_hub_deps) = NilMessenger then 0 else 2)"
    by blast
  have l1: "length new1 = 2" using a(3) m by simp
  have l2: "new2 = []" using b(4) m by simp
  have v: "map Value (outbox s1) = [''3'', ''3'']"
    using a(2) a(4) c l1 by (simp add: itoa.simps digit_def numeral_2_eq_2)
  have t: "map Timestamp (outbox s1) = [0, 60000000000]"
    using a(2) a(5) c l1 by (simp add: numeral_2_eq_2 minute_def second_def)
  have n: "now s2 = 120000000000" using b(2) c by (simp add: minute_def second_def)
  show ?thesis
    unfolding a(1) b(1) using v t n b(3) l2 c by (simp add: returned_def outcome_state_def)
qed

text \<open>
  C10. The reader sets the read limit of its connection to 512 bytes. After any run of
  pongs and data messages within the limit, a data message longer than 512 bytes is
  handled exactly as a failed read: it is not logged, nothing after it is read, and the
  connection is deleted from the map, handed a close message and closed.
\<close>

theorem handleClose_read_limit:
  assumes "list_all fits pre" "maxMessageSize < length p"
  shows "handleClose (Conn i) (pre @ Data p # rest) s
           = handleClose (Conn i) (pre @ [Fail ErrReadLimit]) s \<and>
         (\<exists>s'. handleClose (Conn i) (pre @ Data p # rest) s = Inr s' \<and>
            readLimit (heap s' i) = 512 \<and>
            logs s' = logs s @ received pre \<and>
            wsClients s' = (wsClients s)(Conn i := None) \<and>
            written (heap s' i) = written (heap s i) @ [MessageFrame CloseMessage []] \<and>
            close_calls (heap s' i) = Suc (close_calls (heap s i)))"
proof -
  let ?s2 = "SetReadDeadline i (now s + pongWait) (SetReadLimit i maxMessageSize s)"
  have fit: "\<forall>x \<in> set pre. fits x" using assms(1) by (simp add: list_all_iff)
  have rl: "readLimit (heap ?s2 i) = maxMessageSize"
    by (simp add: SetReadDeadline_def SetReadLimit_def upd_conn_def)
  have lg: "logs ?s2 = logs s"
    by (simp add: SetReadDeadline_def SetReadLimit_def upd_conn_def)
  have eq: "handleClose_loop i (pre @ Data p # rest) ?s2 = handleClose_loop i (pre @ [Fail ErrReadLimit]) ?s2"
    by (rule handleClose_loop_oversized [OF fit rl assms(2)])
  have l: "logs (handleClose_loop i (pre @ Data p # rest) ?s2) = logs s @ received pre"
    unfolding eq using handleClose_loop_logs [OF fit rl] lg by simp
  have e1: "handleClose (Conn i) (pre @ Data p # rest) s
           = handleClose (Conn i) (pre @ [Fail ErrReadLimit]) s"
    using eq by (simp add: handleClose_def Let_def)
  have l2: "\<And>s'. handleClose (Conn i) (pre @ Data p # rest) s = Inr s' \<Longrightarrow> logs s' = logs s @ received pre"
    using l by (auto simp: handleClose_def Let_def handleClose_deferred_def map_delete_def
        WriteMessage_def write_frame_def Close_def upd_conn_def)
  from handleClose_effect [of i "pre @ Data p # rest" s] l2 e1
  show ?thesis by (auto simp: maxMessageSize_def)
qed

text \<open>
  The theorem for connection \<open>B\<close> of the map \<open>{A, B, C}\<close>: a message, a pong, then
  513 bytes.
\<close>

theorem handleClose_read_limit_witness:
  "list_all fits [Data ''hello'', Pong []] \<and> maxMessageSize < length (replicate 513 CHR ''a'') \<and>
   handleClose (Conn 1) ([Data ''hello'', Pong []] @ Data (replicate 513 CHR ''a'') # [Data ''late'']) world_ABC
     = handleClose (Conn 1) ([Data ''hello'', Pong []] @ [Fail ErrReadLimit]) world_ABC \<and>
   registered_after
     (handleClose (Conn 1) ([Data ''hello'', Pong []] @ Data (replicate 513 CHR ''a'') # [Data ''late'']) world_ABC)
     = Some {Conn 0, Conn 2} \<and>
   closes_of 1
     (handleClose (Conn 1) ([Data ''hello'', Pong []] @ Data (replicate 513 CHR ''a'') # [Data ''late'']) world_ABC)
     = Some 1 \<and>
   sent_to 1
     (handleClose (Conn 1) ([Data ''hello'', Pong []] @ Data (replicate 513 CHR ''a'') # [Data ''late'']) world_ABC)
     = Some [MessageFrame CloseMessage []]"
proof -
  have h: "list_all fits [Data ''hello'', Pong []]"
    "maxMessageSize < length (replicate 513 CHR ''a'')"
    by (simp_all add: maxMessageSize_def)
  have d: "dom ((wsClients world_ABC)(Conn 1 := None)) = {Conn 0, Conn 2}"
    by (auto simp: example_defs)
  from handleClose_read_limit [OF h, of 1 "[Data ''late'']" world_ABC] obtain s' where
    e: "handleClose (Conn 1) ([Data ''hello'', Pong []] @ Data (replicate 513 CHR ''a'') # [Data ''late'']) world_ABC
     = handleClose (Conn 1) ([Data ''hello'', Pong []] @ [Fail ErrReadLimit]) world_ABC"
    and r: "handleClose (Conn 1) ([Data ''hello'', Pong []] @ Data (replicate 513 CHR ''a'') # [Data ''late'']) world_ABC = Inr s'"
    and f: "wsClients s' = (wsClients world_ABC)(Conn 1 := None)"
      "written (heap s' 1) = written (heap world_ABC 1) @ [MessageFrame CloseMessage []]"
      "close_calls (heap s' 1) = Suc (close_calls (heap world_ABC 1))"
    by blast
  have g: "written (heap world_ABC 1) = []" "close_calls (heap world_ABC 1) = 0"
    by (simp_all add: example_defs)
  have reg: "registered_after
     (handleClose (Conn 1) ([Data ''hello'', Pong []] @ Data (replicate 513 CHR ''a'') # [Data ''late'']) world_ABC)
     = Some {Conn 0, Conn 2}"
    unfolding r using f d by (simp add: registered_after_def)
  have cl: "closes_of 1
     (handleClose (Conn 1) ([Data ''hello'', Pong []] @ Data (replicate 513 CHR ''a'') # [Data ''late'']) world_ABC)
     = Some 1"
    unfolding r using f g by (simp add: closes_of_def)
  have st: "sent_to 1
     (handleClose (Conn 1) ([Data ''hello'', Pong []] @ Data (replicate 513 CHR ''a'') # [Data ''late'']) world_ABC)
     = Some [MessageFrame CloseMessage []]"
    unfolding r using f g by (simp add: sent_to_def)
  from h e reg cl st show ?thesis by (intro conjI) assumption+
qed

end
